theory Spec2Isabelle
  imports Main "HOL-Library.Word"
begin

unbundle bit_operations_syntax

section \<open>merge.c: merging MIDI streams\<close>

text \<open>
  A shallow embedding of \<^verbatim>\<open>src/merge.c\<close>. One worker thread (\<^verbatim>\<open>run\<close>) is modelled
  sequentially: it reads its own input and writes to the shared output. What the
  operating system does is an input of the model: the bytes the input still holds and
  how it ends, and the value each call of \<^verbatim>\<open>write(2)\<close> returns.
\<close>

subsection \<open>Byte classes and the message-length table\<close>

type_synonym uint8_t = "8 word"

text \<open>The macros are used as C conditions: true when the masked value is not zero.\<close>

definition IS_CHANNEL :: "uint8_t \<Rightarrow> bool" where
  "IS_CHANNEL b \<longleftrightarrow> (b AND 0x80) \<noteq> 0"

definition IS_SYSRT :: "uint8_t \<Rightarrow> bool" where
  "IS_SYSRT b \<longleftrightarrow> (b AND 0xF8) \<noteq> 0"

definition IS_SYSTEM :: "uint8_t \<Rightarrow> bool" where
  "IS_SYSTEM b \<longleftrightarrow> (b AND 0xF0) \<noteq> 0"

definition IS_SOX :: "uint8_t \<Rightarrow> bool" where
  "IS_SOX b \<longleftrightarrow> b = 0xF0"

definition IS_EOX :: "uint8_t \<Rightarrow> bool" where
  "IS_EOX b \<longleftrightarrow> b = 0xF7"

text \<open>\<^verbatim>\<open>msglen[16]\<close>: entries 0..7 by the low nybble of a system common status,
  entries 8..15 by the high nybble of a channel status.\<close>

definition msglen :: "uint8_t list" where
  "msglen = [0, 1, 2, 1, 0, 0, 0, 0, 2, 2, 2, 2, 1, 1, 2, 0]"

subsection \<open>The data\<close>

record IOStatus =
  retval :: int
  error :: int

text \<open>
  One call \<^verbatim>\<open>write(global->fd, &byte, 1)\<close>: the byte handed over, the value the call
  returned, and which of the two mutexes were held at that moment.
\<close>

record wcall =
  wbyte :: uint8_t
  wret :: int
  wlock :: bool
  wlock_rt :: bool

text \<open>What one call of \<^verbatim>\<open>write(2)\<close> for one byte does: it writes the byte and returns 1,
  writes nothing and returns 0, or fails, returns -1 and sets \<^verbatim>\<open>errno\<close>.\<close>

datatype wres = Written | NotWritten | WriteError int

fun wres_ret :: "wres \<Rightarrow> int" where
  "wres_ret Written = 1"
| "wres_ret NotWritten = 0"
| "wres_ret (WriteError e) = -1"

text \<open>
  \<^verbatim>\<open>struct _State\<close>, shared by all workers. The two mutexes are their held flags;
  \<open>global_status\<close> is the field \<^verbatim>\<open>status\<close> (the workers have a local of that name). The
  output descriptor \<^verbatim>\<open>fd\<close> is the list of the calls of \<^verbatim>\<open>write\<close> made on it so far
  (\<open>out_calls\<close>, oldest first) together with what the descriptor answers to its k-th
  call (\<open>out_res\<close>).
\<close>

record State =
  lock :: bool
  lock_rt :: bool
  global_status :: uint8_t
  out_calls :: "wcall list"
  out_res :: "nat \<Rightarrow> wres"

text \<open>The bytes that reached the output: those of the calls that returned 1.\<close>

definition sink :: "State \<Rightarrow> uint8_t list" where
  "sink g = map wbyte (filter (\<lambda>c. wret c = 1) (out_calls g))"

text \<open>Every byte handed to \<^verbatim>\<open>write\<close>, whatever the call returned.\<close>

definition handed :: "State \<Rightarrow> uint8_t list" where
  "handed g = map wbyte (out_calls g)"

text \<open>How an input ends once its bytes are read: \<^verbatim>\<open>read\<close> returns 0 (end of file), or
  fails, returns -1 and sets \<^verbatim>\<open>errno\<close>.\<close>

datatype rend = EndOfFile | ReadError int

text \<open>
  \<^verbatim>\<open>struct _MIDIStream\<close>. The input descriptor \<^verbatim>\<open>fd\<close> is the list of bytes it still
  delivers and the way it ends (\<open>fd_end\<close>). \<open>done_flag\<close> is the field \<^verbatim>\<open>done\<close>.
  \<open>global\<close> is the shared state the worker points to, \<open>errno\<close> the thread's
  \<^verbatim>\<open>errno\<close>. The fields \<^verbatim>\<open>name\<close>, \<^verbatim>\<open>id\<close>, \<^verbatim>\<open>out_fd\<close>, \<^verbatim>\<open>tid\<close> are never read by
  the worker and are left out; \<^verbatim>\<open>joined\<close> belongs to \<^verbatim>\<open>main\<close> below.
\<close>

record MIDIStream =
  fd :: "uint8_t list"
  fd_end :: rend
  done_flag :: bool
  io :: IOStatus
  global :: State
  errno :: int

text \<open>
  A helper either returns to its caller or ends the thread with \<^verbatim>\<open>pthread_exit\<close>;
  \<open>Exit\<close> says in which function that call stands.
\<close>

datatype exit_site = In_getbyte | In_putbyte | In_putmsg

datatype 'a thr = Exit exit_site MIDIStream | Ret 'a MIDIStream

definition EINVAL :: int where
  "EINVAL = 22"

subsection \<open>Byte input and output\<close>

definition write_fd :: "MIDIStream \<Rightarrow> uint8_t \<Rightarrow> int \<times> MIDIStream" where
  "write_fd mss byte =
     (let g = global mss;
          w = out_res g (length (out_calls g));
          c = \<lparr>wbyte = byte, wret = wres_ret w, wlock = lock g, wlock_rt = lock_rt g\<rparr>
      in (wres_ret w,
          mss\<lparr>global := g\<lparr>out_calls := out_calls g @ [c]\<rparr>,
              errno := (case w of WriteError e \<Rightarrow> e | _ \<Rightarrow> errno mss)\<rparr>))"

definition read_fd :: "MIDIStream \<Rightarrow> int \<times> uint8_t \<times> MIDIStream" where
  "read_fd mss =
     (case fd mss of
        b # rest \<Rightarrow> (1, b, mss\<lparr>fd := rest\<rparr>)
      | [] \<Rightarrow> (case fd_end mss of
                 EndOfFile \<Rightarrow> (0, 0, mss)
               | ReadError e \<Rightarrow> (-1, 0, mss\<lparr>errno := e\<rparr>)))"

definition putbyte :: "MIDIStream \<Rightarrow> uint8_t \<Rightarrow> unit thr" where
  "putbyte mss byte =
     (case write_fd mss byte of (r, m) \<Rightarrow>
        let m1 = m\<lparr>io := (io m)\<lparr>retval := r\<rparr>\<rparr> in
        if r \<noteq> 0
        then Exit In_putbyte (m1\<lparr>io := (io m1)\<lparr>error := errno m1\<rparr>, done_flag := True\<rparr>)
        else Ret () m1)"

definition getbyte :: "MIDIStream \<Rightarrow> uint8_t thr" where
  "getbyte mss =
     (case read_fd mss of (r, byte, m) \<Rightarrow>
        let m1 = m\<lparr>io := (io m)\<lparr>retval := r\<rparr>\<rparr> in
        if r \<le> 0
        then Exit In_getbyte (m1\<lparr>io := (io m1)\<lparr>error := errno m1\<rparr>, done_flag := True\<rparr>)
        else Ret byte m1)"

lemma getbyte_Ret_fd: "getbyte mss = Ret b m \<Longrightarrow> fd mss = b # fd m"
  by (auto simp: getbyte_def read_fd_def Let_def split: list.splits rend.splits if_splits)

lemma putbyte_Ret_fd: "putbyte mss b = Ret u m \<Longrightarrow> fd m = fd mss"
  by (auto simp: putbyte_def write_fd_def Let_def split: if_splits)

lemma getbyte_Ret_len: "getbyte mss = Ret b m \<Longrightarrow> length (fd m) < length (fd mss)"
  by (drule getbyte_Ret_fd) simp

subsection \<open>putmsg\<close>

text \<open>The \<^verbatim>\<open>while( i <= count )\<close> loop of \<^verbatim>\<open>putmsg\<close>.\<close>

function putmsg_loop :: "int \<Rightarrow> int \<Rightarrow> MIDIStream \<Rightarrow> unit thr" where
  "putmsg_loop i count mss =
     (if i \<le> count then
        (case getbyte mss of
           Exit k m \<Rightarrow> Exit k m
         | Ret byte m \<Rightarrow>
             if IS_CHANNEL byte
             then Exit In_putmsg (m\<lparr>io := \<lparr>retval = -1, error = EINVAL\<rparr>, done_flag := True\<rparr>)
             else (case putbyte m byte of
                     Exit k m' \<Rightarrow> Exit k m'
                   | Ret u m' \<Rightarrow> putmsg_loop (if \<not> IS_SYSRT byte then i + 1 else i) count m'))
      else Ret () mss)"
  by pat_completeness auto
termination
  by (relation "measure (\<lambda>(i, count, mss). length (fd mss))")
     (auto dest!: getbyte_Ret_len putbyte_Ret_fd)

declare putmsg_loop.simps [simp del]

text \<open>
  The \<^verbatim>\<open>if\<close> and \<^verbatim>\<open>else\<close> blocks of \<^verbatim>\<open>putmsg\<close> before the loop: they write the status
  byte where \<^verbatim>\<open>global->status\<close> differs, write \<^verbatim>\<open>byte\<close> where it is not the status, and
  leave \<^verbatim>\<open>i\<close> at 0 or 1, which is the value returned.
\<close>

definition putmsg_head :: "MIDIStream \<Rightarrow> uint8_t \<Rightarrow> uint8_t \<Rightarrow> int thr" where
  "putmsg_head mss status byte =
     (if byte = status then
        (if global_status (global mss) \<noteq> status then
           (case putbyte mss byte of
              Exit k m \<Rightarrow> Exit k m
            | Ret u m \<Rightarrow> Ret 0 (m\<lparr>global := (global m)\<lparr>global_status := byte\<rparr>\<rparr>))
         else Ret 0 mss)
      else
        (case (if global_status (global mss) \<noteq> status then
                 (case putbyte mss status of
                    Exit k m \<Rightarrow> Exit k m
                  | Ret u m \<Rightarrow> Ret () (m\<lparr>global := (global m)\<lparr>global_status := status\<rparr>\<rparr>))
               else Ret () mss) of
           Exit k m \<Rightarrow> Exit k m
         | Ret u m \<Rightarrow>
             (case putbyte m byte of
                Exit k m' \<Rightarrow> Exit k m'
              | Ret u' m' \<Rightarrow> Ret 1 m')))"

definition putmsg :: "MIDIStream \<Rightarrow> uint8_t \<Rightarrow> uint8_t \<Rightarrow> int \<Rightarrow> unit thr" where
  "putmsg mss status byte count =
     (case putmsg_head mss status byte of
        Exit k m \<Rightarrow> Exit k m
      | Ret i m \<Rightarrow> putmsg_loop i count m)"

lemma putmsg_unfold:
  "putmsg mss status byte count =
     (if byte = status then
        (if global_status (global mss) \<noteq> status then
           (case putbyte mss byte of
              Exit k m \<Rightarrow> Exit k m
            | Ret u m \<Rightarrow> putmsg_loop 0 count (m\<lparr>global := (global m)\<lparr>global_status := byte\<rparr>\<rparr>))
         else putmsg_loop 0 count mss)
      else
        (case (if global_status (global mss) \<noteq> status then
                 (case putbyte mss status of
                    Exit k m \<Rightarrow> Exit k m
                  | Ret u m \<Rightarrow> Ret () (m\<lparr>global := (global m)\<lparr>global_status := status\<rparr>\<rparr>))
               else Ret () mss) of
           Exit k m \<Rightarrow> Exit k m
         | Ret u m \<Rightarrow>
             (case putbyte m byte of
                Exit k m' \<Rightarrow> Exit k m'
              | Ret u' m' \<Rightarrow> putmsg_loop 1 count m')))"
  by (simp add: putmsg_def putmsg_head_def split: thr.splits)

lemma putmsg_loop_fd:
  "putmsg_loop i count mss = Ret u m \<Longrightarrow> length (fd m) \<le> length (fd mss)"
proof (induction i count mss rule: putmsg_loop.induct)
  case (1 i count mss)
  show ?case
  proof (cases "i \<le> count")
    case False
    with "1.prems" show ?thesis by (simp add: putmsg_loop.simps)
  next
    case True
    with "1.prems" obtain byte m1 m2 u' where
      g: "getbyte mss = Ret byte m1" and c: "\<not> IS_CHANNEL byte" and
      p: "putbyte m1 byte = Ret u' m2" and
      r: "putmsg_loop (if \<not> IS_SYSRT byte then i + 1 else i) count m2 = Ret u m"
      by (subst (asm) putmsg_loop.simps) (auto split: thr.splits if_splits)
    from "1.IH" [OF True g c p r] have "length (fd m) \<le> length (fd m2)" .
    with getbyte_Ret_fd [OF g] putbyte_Ret_fd [OF p] show ?thesis by simp
  qed
qed

lemma putmsg_fd:
  "putmsg mss status byte count = Ret u m \<Longrightarrow> length (fd m) \<le> length (fd mss)"
  unfolding putmsg_unfold
  by (auto split: if_splits thr.splits dest!: putmsg_loop_fd putbyte_Ret_fd)

subsection \<open>run\<close>

text \<open>
  \<^verbatim>\<open>LOCK\<close> and \<^verbatim>\<open>UNLOCK\<close> on the two mutexes of the shared state. The model follows one
  worker, so \<^verbatim>\<open>pthread_mutex_lock\<close> is the moment the worker has the mutex: waiting for
  another worker is not modelled.
\<close>

definition LOCK_lockp :: "MIDIStream \<Rightarrow> MIDIStream" where
  "LOCK_lockp mss = mss\<lparr>global := (global mss)\<lparr>lock := True\<rparr>\<rparr>"

definition UNLOCK_lockp :: "MIDIStream \<Rightarrow> MIDIStream" where
  "UNLOCK_lockp mss = mss\<lparr>global := (global mss)\<lparr>lock := False\<rparr>\<rparr>"

definition LOCK_rtlockp :: "MIDIStream \<Rightarrow> MIDIStream" where
  "LOCK_rtlockp mss = mss\<lparr>global := (global mss)\<lparr>lock_rt := True\<rparr>\<rparr>"

definition UNLOCK_rtlockp :: "MIDIStream \<Rightarrow> MIDIStream" where
  "UNLOCK_rtlockp mss = mss\<lparr>global := (global mss)\<lparr>lock_rt := False\<rparr>\<rparr>"

text \<open>The \<^verbatim>\<open>do { putbyte; byte = getbyte } while( !IS_EOX(byte) )\<close> loop of the
  \<^verbatim>\<open>IS_SOX\<close> branch; it returns the byte that ended it.\<close>

function sox_loop :: "uint8_t \<Rightarrow> MIDIStream \<Rightarrow> uint8_t thr" where
  "sox_loop byte mss =
     (case putbyte mss byte of
        Exit k m \<Rightarrow> Exit k m
      | Ret u m \<Rightarrow>
          (case getbyte m of
             Exit k m' \<Rightarrow> Exit k m'
           | Ret byte' m' \<Rightarrow> if \<not> IS_EOX byte' then sox_loop byte' m' else Ret byte' m'))"
  by pat_completeness auto
termination
  by (relation "measure (\<lambda>(byte, mss). length (fd mss))")
     (auto dest!: getbyte_Ret_len putbyte_Ret_fd)

declare sox_loop.simps [simp del]

lemma sox_loop_fd:
  "sox_loop byte mss = Ret b m \<Longrightarrow> length (fd m) < length (fd mss)"
proof (induction byte mss rule: sox_loop.induct)
  case (1 byte mss)
  from "1.prems" obtain u m1 byte' m2 where
    p: "putbyte mss byte = Ret u m1" and g: "getbyte m1 = Ret byte' m2" and
    r: "if \<not> IS_EOX byte' then sox_loop byte' m2 = Ret b m else Ret byte' m2 = Ret b m"
    by (subst (asm) sox_loop.simps) (auto split: thr.splits if_splits)
  show ?case
  proof (cases "IS_EOX byte'")
    case True
    with r getbyte_Ret_fd [OF g] putbyte_Ret_fd [OF p] show ?thesis by simp
  next
    case False
    with r have "sox_loop byte' m2 = Ret b m" by simp
    from "1.IH" [OF p g False this] getbyte_Ret_fd [OF g] putbyte_Ret_fd [OF p]
    show ?thesis by simp
  qed
qed

text \<open>
  One pass of the \<^verbatim>\<open>for(;;)\<close> loop of \<^verbatim>\<open>run\<close>. The locals \<^verbatim>\<open>status\<close> and \<^verbatim>\<open>count\<close>
  live across passes: a pass takes their values and returns the new ones.
\<close>

definition run_body :: "uint8_t \<Rightarrow> int \<Rightarrow> MIDIStream \<Rightarrow> (uint8_t \<times> int) thr" where
  "run_body status count mss =
     (case getbyte mss of
        Exit k m \<Rightarrow> Exit k m
      | Ret byte m \<Rightarrow>
          if IS_SYSRT byte then
            (case putbyte (LOCK_rtlockp m) byte of
               Exit k m' \<Rightarrow> Exit k m'
             | Ret u m' \<Rightarrow> Ret (status, count) (UNLOCK_rtlockp m'))
          else
            let m = LOCK_lockp m in
            if IS_SOX byte then
              (case sox_loop byte (LOCK_rtlockp m) of
                 Exit k m' \<Rightarrow> Exit k m'
               | Ret byte' m1 \<Rightarrow>
                   (case putbyte m1 byte' of
                      Exit k m' \<Rightarrow> Exit k m'
                    | Ret u m2 \<Rightarrow>
                        Ret (status, count)
                          (UNLOCK_lockp (UNLOCK_rtlockp
                             (m2\<lparr>global := (global m2)\<lparr>global_status := 0x00\<rparr>\<rparr>)))))
            else if IS_SYSTEM byte then
              (let count = uint (msglen ! unat (byte AND 0x0F)) in
               case putmsg m status byte count of
                 Exit k m' \<Rightarrow> Exit k m'
               | Ret u m' \<Rightarrow> Ret (byte, count) (UNLOCK_lockp m'))
            else if IS_CHANNEL byte then
              (let count = uint (msglen ! unat (drop_bit 4 byte)) in
               case putmsg m status byte count of
                 Exit k m' \<Rightarrow> Exit k m'
               | Ret u m' \<Rightarrow> Ret (byte, count) (UNLOCK_lockp m'))
            else
              (case putmsg m status byte count of
                 Exit k m' \<Rightarrow> Exit k m'
               | Ret u m' \<Rightarrow> Ret (status, count) (UNLOCK_lockp m')))"

lemma run_body_fd:
  "run_body status count mss = Ret sc m \<Longrightarrow> length (fd m) < length (fd mss)"
  unfolding run_body_def Let_def
  by (auto split: thr.splits if_splits
      simp: LOCK_lockp_def UNLOCK_lockp_def LOCK_rtlockp_def UNLOCK_rtlockp_def
      dest!: getbyte_Ret_len putbyte_Ret_fd putmsg_fd sox_loop_fd)

text \<open>
  The \<^verbatim>\<open>for(;;)\<close> loop. It has no exit of its own: the worker ends inside a helper, and
  the result is where it ended and the stream it leaves.
\<close>

function run_loop :: "uint8_t \<Rightarrow> int \<Rightarrow> MIDIStream \<Rightarrow> exit_site \<times> MIDIStream" where
  "run_loop status count mss =
     (case run_body status count mss of
        Exit k m \<Rightarrow> (k, m)
      | Ret sc m \<Rightarrow> run_loop (fst sc) (snd sc) m)"
  by pat_completeness auto
termination
  by (relation "measure (\<lambda>(status, count, mss). length (fd mss))")
     (auto dest!: run_body_fd)

declare run_loop.simps [simp del]

text \<open>
  \<^verbatim>\<open>run\<close>: \<^verbatim>\<open>status\<close> starts at 0x00. \<^verbatim>\<open>count\<close> is declared without a value, and the
  running-status branch reads it before any assignment: \<open>count0\<close> is the value the
  local happens to hold.
\<close>

definition run :: "int \<Rightarrow> MIDIStream \<Rightarrow> exit_site \<times> MIDIStream" where
  "run count0 mss = run_loop 0x00 count0 mss"

subsection \<open>main\<close>

text \<open>
  What \<^verbatim>\<open>main\<close> needs of the operating system: \<^verbatim>\<open>open\<close> for reading gives the bytes
  of the file and the way it ends, \<^verbatim>\<open>open\<close> for writing gives the answers of the
  descriptor to the calls of \<^verbatim>\<open>write\<close>; \<open>None\<close> is a negative return value.
  The path is \<open>None\<close> for the null pointer.
\<close>

record Env =
  open_rd :: "string option \<Rightarrow> (uint8_t list \<times> rend) option"
  open_wr :: "string option \<Rightarrow> (nat \<Rightarrow> wres) option"

text \<open>\<^verbatim>\<open>argv[i]\<close> for \<^verbatim>\<open>i <= argc\<close>: \<^verbatim>\<open>argv[argc]\<close> is the null pointer.\<close>

definition argv_at :: "string list \<Rightarrow> nat \<Rightarrow> string option" where
  "argv_at argv i = (if i < length argv then Some (argv ! i) else None)"

definition MAX_STREAMS :: nat where
  "MAX_STREAMS = 8"

definition EBADF :: int where
  "EBADF = 9"

text \<open>The initialiser of \<^verbatim>\<open>global\<close> in \<^verbatim>\<open>main\<close>: both mutexes free, \<^verbatim>\<open>status\<close> 0x00 and
  \<^verbatim>\<open>fd\<close> -1, a descriptor on which every \<^verbatim>\<open>write\<close> fails.\<close>

definition global_init :: State where
  "global_init =
     \<lparr>lock = False, lock_rt = False, global_status = 0x00, out_calls = [],
      out_res = (\<lambda>k. WriteError EBADF)\<rparr>"

text \<open>
  \<^verbatim>\<open>mss_init\<close> on a slot whose \<^verbatim>\<open>open\<close> succeeded, followed by the two stores
  \<^verbatim>\<open>mss[j].fd = fd\<close> and \<^verbatim>\<open>mss[j].global = &global\<close>: \<^verbatim>\<open>io\<close> is cleared and \<^verbatim>\<open>done\<close> is
  false. A new thread starts with \<^verbatim>\<open>errno\<close> 0.
\<close>

definition mss_init :: "uint8_t list \<times> rend \<Rightarrow> State \<Rightarrow> MIDIStream" where
  "mss_init inp g =
     \<lparr>fd = fst inp, fd_end = snd inp, done_flag = False,
      io = \<lparr>retval = 0, error = 0\<rparr>, global = g, errno = 0\<rparr>"

text \<open>How the process ends: with an exit status, or in a store outside an array.\<close>

datatype proc = Exits int | Undefined

text \<open>The locals of \<^verbatim>\<open>main\<close>: \<^verbatim>\<open>global\<close>, the slots of the array \<^verbatim>\<open>mss\<close> filled for an
  input so far (\<open>mss_slots\<close>, slot 0 first), and \<^verbatim>\<open>out\<close>.\<close>

record Main =
  main_global :: State
  mss_slots :: "MIDIStream list"
  out :: nat

text \<open>
  The \<^verbatim>\<open>for(i = 1; i <= argc; ++i)\<close> loop. \<^verbatim>\<open>mss\<close> has \<^verbatim>\<open>MAX_STREAMS\<close> slots and the
  test lets \<^verbatim>\<open>j == MAX_STREAMS\<close> pass, so the store \<^verbatim>\<open>mss[j].name = ...\<close> for that \<open>j\<close>
  is outside the array. The loop is entered with \<open>i = 1\<close>.
\<close>

function main_loop :: "Env \<Rightarrow> string list \<Rightarrow> nat \<Rightarrow> Main \<Rightarrow> proc + Main" where
  "main_loop env argv i st =
     (if i \<le> length argv then
        (let j = i - 1 in
         if j > MAX_STREAMS then Inl (Exits 1)
         else if j = MAX_STREAMS then Inl Undefined
         else if i = length argv then
           (case open_wr env (argv_at argv i) of
              None \<Rightarrow> Inl (Exits 1)
            | Some w \<Rightarrow>
                main_loop env argv (i + 1)
                  (st\<lparr>main_global := (main_global st)\<lparr>out_res := w\<rparr>, out := j\<rparr>))
         else
           (case open_rd env (argv_at argv i) of
              None \<Rightarrow> Inl (Exits 1)
            | Some inp \<Rightarrow>
                main_loop env argv (i + 1)
                  (st\<lparr>mss_slots := mss_slots st @ [mss_init inp (main_global st)]\<rparr>)))
      else Inr st)"
  by pat_completeness auto
termination
  by (relation "measure (\<lambda>(env, argv, i, st). Suc (length argv) - i)") auto

declare main_loop.simps [simp del]

text \<open>The streams the threads are started on: every stream points to the one
  \<^verbatim>\<open>global\<close>, as it is when the threads start.\<close>

definition launched :: "Main \<Rightarrow> MIDIStream list" where
  "launched st = map (\<lambda>m. m\<lparr>global := main_global st\<rparr>) (take (out st) (mss_slots st))"

text \<open>
  One pass of \<^verbatim>\<open>for( i = 0; i < out; ++i )\<close> inside the polling loop. \<open>v i\<close> is
  \<^verbatim>\<open>mss[i]\<close> as \<^verbatim>\<open>main\<close> reads it in this pass; \<open>joined\<close> holds the fields
  \<^verbatim>\<open>mss[i].joined\<close>, which only \<^verbatim>\<open>main\<close> writes.
\<close>

fun sweep :: "(nat \<Rightarrow> MIDIStream) \<Rightarrow> nat list \<Rightarrow> bool \<times> bool list \<Rightarrow> bool \<times> bool list" where
  "sweep v [] s = s"
| "sweep v (i # rest) (done, joined) =
     (if joined ! i then sweep v rest (done, joined)
      else if done_flag (v i) then sweep v rest (done, joined[i := True])
      else sweep v rest (False, joined))"

text \<open>
  The \<^verbatim>\<open>while( !done )\<close> loop over the first \<open>n\<close> slots (\<open>n\<close> is \<^verbatim>\<open>out\<close>): \<open>view k i\<close>
  is \<^verbatim>\<open>mss[i]\<close> as read in pass \<open>k\<close>. The loop
  does not end while a worker never sets \<^verbatim>\<open>done\<close>: then the result is \<open>None\<close>.
\<close>

partial_function (option) poll ::
  "(nat \<Rightarrow> nat \<Rightarrow> MIDIStream) \<Rightarrow> nat \<Rightarrow> nat \<Rightarrow> bool list \<Rightarrow> bool list option" where
  "poll view n k joined =
     (let s = sweep (view k) [0..<n] (True, joined) in
      if fst s then Some (snd s) else poll view n (Suc k) (snd s))"

declare poll.simps [code]

text \<open>
  The end of \<^verbatim>\<open>main\<close>, from the start of the threads on: the polling loop over the
  \<open>n\<close> workers, then the end of the function body, which for \<^verbatim>\<open>main\<close> is exit
  status 0. \<^verbatim>\<open>pthread_join\<close> is called with a null result pointer and the fields \<^verbatim>\<open>io\<close>
  are not read.
\<close>

definition supervise :: "(nat \<Rightarrow> nat \<Rightarrow> MIDIStream) \<Rightarrow> nat \<Rightarrow> proc option" where
  "supervise view n =
     (case poll view n 0 (replicate n False) of
        None \<Rightarrow> None
      | Some joined \<Rightarrow> Some (Exits 0))"

text \<open>
  \<^verbatim>\<open>main\<close>. The threads run \<^verbatim>\<open>run\<close> on the streams \<open>launched\<close>; what \<^verbatim>\<open>main\<close> sees of
  them while it polls is \<open>workers\<close> applied to those streams.
\<close>

definition main ::
  "Env \<Rightarrow> (MIDIStream list \<Rightarrow> nat \<Rightarrow> nat \<Rightarrow> MIDIStream) \<Rightarrow> string list \<Rightarrow> proc option" where
  "main env workers argv =
     (case main_loop env argv 1 \<lparr>main_global = global_init, mss_slots = [], out = 0\<rparr> of
        Inl p \<Rightarrow> Some p
      | Inr st \<Rightarrow>
          if out st = 0 then Some (Exits 1)
          else supervise (workers (launched st)) (out st))"

text \<open>Two outputs: one on which every \<^verbatim>\<open>write\<close> writes its byte and returns 1, and one
  on which every \<^verbatim>\<open>write\<close> returns 0.\<close>

definition all_written :: "nat \<Rightarrow> wres" where
  "all_written k = Written"

definition none_written :: "nat \<Rightarrow> wres" where
  "none_written k = NotWritten"

text \<open>
  An operating system with the readable files \<open>fs\<close> (name and content): a file that
  is there opens for reading and for writing, and the null path opens for neither.
\<close>

definition files :: "(string \<times> uint8_t list) list \<Rightarrow> Env" where
  "files fs =
     \<lparr>open_rd = (\<lambda>p. case p of
                       None \<Rightarrow> None
                     | Some name \<Rightarrow> map_option (\<lambda>bytes. (bytes, EndOfFile)) (map_of fs name)),
      open_wr = (\<lambda>p. case p of
                       None \<Rightarrow> None
                     | Some name \<Rightarrow> map_option (\<lambda>bytes. all_written) (map_of fs name))\<rparr>"

subsection \<open>A worker on one input\<close>

text \<open>
  The stream of a worker as \<^verbatim>\<open>main\<close> starts it, for an input that holds \<open>bytes\<close> and
  then is at its end, and an output that answers \<open>w\<close>.
\<close>

definition worker :: "uint8_t list \<Rightarrow> (nat \<Rightarrow> wres) \<Rightarrow> MIDIStream" where
  "worker bytes w = mss_init (bytes, EndOfFile) (global_init\<lparr>out_res := w\<rparr>)"

text \<open>The calls of \<^verbatim>\<open>write\<close> a finished worker made: the byte, whether \<^verbatim>\<open>lock\<close> was
  held, whether \<^verbatim>\<open>lock_rt\<close> was held.\<close>

definition calls_of :: "exit_site \<times> MIDIStream \<Rightarrow> (uint8_t \<times> bool \<times> bool) list" where
  "calls_of r = map (\<lambda>c. (wbyte c, wlock c, wlock_rt c)) (out_calls (global (snd r)))"

subsection \<open>Reading a result\<close>

text \<open>The stream a helper leaves, whether it returned or ended the thread.\<close>

fun stream_of :: "'a thr \<Rightarrow> MIDIStream" where
  "stream_of (Exit k m) = m"
| "stream_of (Ret x m) = m"

text \<open>Whether a helper returned to its caller.\<close>

fun returned :: "'a thr \<Rightarrow> bool" where
  "returned (Exit k m) = False"
| "returned (Ret x m) = True"

text \<open>The calls of \<^verbatim>\<open>write\<close> made between two states of the output, oldest first.\<close>

definition new_calls :: "MIDIStream \<Rightarrow> MIDIStream \<Rightarrow> wcall list" where
  "new_calls mss m = drop (length (out_calls (global mss))) (out_calls (global m))"

text \<open>
  What a helper that returns leaves alone (\<open>returns_from\<close>): the way the input ends and
  \<^verbatim>\<open>errno\<close>, while the input has lost some bytes at its front. What holds when the
  thread ends (\<open>exits_from\<close>): \<^verbatim>\<open>done\<close> is set, and \<^verbatim>\<open>io\<close> is what the function that
  called \<^verbatim>\<open>pthread_exit\<close> stored there.
\<close>

definition returns_from :: "MIDIStream \<Rightarrow> MIDIStream \<Rightarrow> bool" where
  "returns_from mss m \<longleftrightarrow>
     fd_end m = fd_end mss \<and> errno m = errno mss \<and> (\<exists>pre. fd mss = pre @ fd m)"

fun end_io :: "rend \<Rightarrow> int \<Rightarrow> IOStatus" where
  "end_io EndOfFile en = \<lparr>retval = 0, error = en\<rparr>"
| "end_io (ReadError e) en = \<lparr>retval = -1, error = e\<rparr>"

definition exits_from :: "MIDIStream \<Rightarrow> exit_site \<Rightarrow> MIDIStream \<Rightarrow> bool" where
  "exits_from mss k m \<longleftrightarrow>
     done_flag m \<and> fd_end m = fd_end mss \<and>
     (\<exists>pre. fd mss = pre @ fd m \<and>
        (k = In_getbyte \<longrightarrow> fd m = [] \<and> io m = end_io (fd_end mss) (errno mss)) \<and>
        (k = In_putbyte \<longrightarrow> retval (io m) \<noteq> 0) \<and>
        (k = In_putmsg \<longrightarrow>
           io m = \<lparr>retval = -1, error = EINVAL\<rparr> \<and> pre \<noteq> [] \<and> IS_CHANNEL (last pre)))"

definition result_from :: "MIDIStream \<Rightarrow> 'a thr \<Rightarrow> bool" where
  "result_from mss r = (case r of Exit k m \<Rightarrow> exits_from mss k m | Ret x m \<Rightarrow> returns_from mss m)"

section \<open>Facts about the byte classes\<close>

text \<open>A test \<^verbatim>\<open>b & m\<close> with a mask of the high bits is true as soon as one of these
  bits is set, that is, from the lowest such bit on.\<close>

lemma and_high_mask:
  fixes b :: "8 word"
  assumes k8: "k < 8"
  shows "b AND push_bit k (mask (8 - k)) = 0 \<longleftrightarrow> b < 2 ^ k"
proof -
  have len: "n < 8" if "bit b n" for n
    using bit_imp_le_length [OF that] by simp
  have "b AND push_bit k (mask (8 - k)) = 0 \<longleftrightarrow> (\<forall>n. k \<le> n \<longrightarrow> \<not> bit b n)"
  proof
    assume z: "b AND push_bit k (mask (8 - k)) = 0"
    show "\<forall>n. k \<le> n \<longrightarrow> \<not> bit b n"
    proof (intro allI impI notI)
      fix n
      assume n: "k \<le> n" "bit b n"
      with len [of n] k8 have "bit (b AND push_bit k (mask (8 - k))) n"
        by (auto simp: bit_simps)
      with z show False by simp
    qed
  next
    assume "\<forall>n. k \<le> n \<longrightarrow> \<not> bit b n"
    then show "b AND push_bit k (mask (8 - k)) = 0"
      by (auto simp: bit_eq_iff bit_simps)
  qed
  also have "\<dots> \<longleftrightarrow> (\<forall>n. \<not> bit b (k + n))"
    by (metis le_Suc_ex le_add1)
  also have "\<dots> \<longleftrightarrow> drop_bit k b = 0"
  proof
    assume "\<forall>n. \<not> bit b (k + n)"
    then show "drop_bit k b = 0"
      by (simp add: bit_eq_iff bit_simps)
  next
    assume z: "drop_bit k b = 0"
    show "\<forall>n. \<not> bit b (k + n)"
    proof (intro allI notI)
      fix n
      assume n: "bit b (k + n)"
      with len [of "k + n"] have "bit (drop_bit k b) n"
        by (simp add: bit_simps)
      with z show False by simp
    qed
  qed
  also have "\<dots> \<longleftrightarrow> take_bit k b = b"
    by (simp add: take_bit_eq_self_iff_drop_bit_eq_0)
  also have "\<dots> \<longleftrightarrow> b < 2 ^ k"
    using k8 by (simp add: take_bit_eq_mask mask_eq_iff_w2p word_size)
  finally show ?thesis .
qed

lemma IS_SYSRT_iff: "IS_SYSRT b \<longleftrightarrow> 0x08 \<le> b"
proof -
  have e: "(0xF8 :: 8 word) = push_bit 3 (mask (8 - 3))"
    by (simp add: mask_eq_exp_minus_1)
  show ?thesis
    unfolding IS_SYSRT_def e using and_high_mask [of 3 b] by (simp add: not_less)
qed

lemma IS_SYSTEM_iff: "IS_SYSTEM b \<longleftrightarrow> 0x10 \<le> b"
proof -
  have e: "(0xF0 :: 8 word) = push_bit 4 (mask (8 - 4))"
    by (simp add: mask_eq_exp_minus_1)
  show ?thesis
    unfolding IS_SYSTEM_def e using and_high_mask [of 4 b] by (simp add: not_less)
qed

lemma IS_CHANNEL_iff: "IS_CHANNEL b \<longleftrightarrow> 0x80 \<le> b"
proof -
  have e: "(0x80 :: 8 word) = push_bit 7 (mask (8 - 7))"
    by (simp add: mask_eq_exp_minus_1)
  show ?thesis
    unfolding IS_CHANNEL_def e using and_high_mask [of 7 b] by (simp add: not_less)
qed

text \<open>\<^verbatim>\<open>run\<close> tests \<^verbatim>\<open>IS_SYSRT\<close> first, and every byte the three later tests accept
  has passed it: only bytes below 0x08 get past the first test.\<close>

lemma past_IS_SYSRT:
  assumes "\<not> IS_SYSRT b"
  shows "\<not> IS_SOX b" and "\<not> IS_SYSTEM b" and "\<not> IS_CHANNEL b"
proof -
  from assms have b: "b < 0x08" by (simp add: IS_SYSRT_iff not_le)
  then show "\<not> IS_SOX b" by (auto simp: IS_SOX_def)
  from b have "b < 0x10" by (rule less_trans) simp
  then show "\<not> IS_SYSTEM b" by (simp add: IS_SYSTEM_iff not_le)
  from b have "b < 0x80" by (rule less_trans) simp
  then show "\<not> IS_CHANNEL b" by (simp add: IS_CHANNEL_iff not_le)
qed

text \<open>So a pass of the loop of \<^verbatim>\<open>run\<close> takes one of two branches, and neither assigns
  \<^verbatim>\<open>status\<close> or \<^verbatim>\<open>count\<close>.\<close>

lemma run_body_reached:
  "run_body status count mss =
     (case getbyte mss of
        Exit k m \<Rightarrow> Exit k m
      | Ret byte m \<Rightarrow>
          if IS_SYSRT byte then
            (case putbyte (LOCK_rtlockp m) byte of
               Exit k m' \<Rightarrow> Exit k m'
             | Ret u m' \<Rightarrow> Ret (status, count) (UNLOCK_rtlockp m'))
          else
            (case putmsg (LOCK_lockp m) status byte count of
               Exit k m' \<Rightarrow> Exit k m'
             | Ret u m' \<Rightarrow> Ret (status, count) (UNLOCK_lockp m')))"
  unfolding run_body_def Let_def
  by (auto split: thr.splits dest: past_IS_SYSRT)


section \<open>Facts about the helpers\<close>

lemma result_from_Exit [simp]: "result_from mss (Exit k m) = exits_from mss k m"
  by (simp add: result_from_def)

lemma result_from_Ret [simp]: "result_from mss (Ret x m) = returns_from mss m"
  by (simp add: result_from_def)

lemma returns_from_refl: "returns_from mss mss"
  by (simp add: returns_from_def)

lemma returns_from_trans:
  "returns_from a b \<Longrightarrow> returns_from b c \<Longrightarrow> returns_from a c"
  by (auto simp: returns_from_def)

lemma returns_then_exits:
  assumes "returns_from a b" and "exits_from b k c"
  shows "exits_from a k c"
proof -
  from assms(1) obtain p1 where p1: "fd a = p1 @ fd b" and
    e: "fd_end b = fd_end a" "errno b = errno a"
    by (auto simp: returns_from_def)
  from assms(2) obtain p2 where p2: "fd b = p2 @ fd c" and
    d: "done_flag c" "fd_end c = fd_end b" and
    g: "k = In_getbyte \<longrightarrow> fd c = [] \<and> io c = end_io (fd_end b) (errno b)" and
    w: "k = In_putbyte \<longrightarrow> retval (io c) \<noteq> 0" and
    f: "k = In_putmsg \<longrightarrow>
          io c = \<lparr>retval = -1, error = EINVAL\<rparr> \<and> p2 \<noteq> [] \<and> IS_CHANNEL (last p2)"
    by (auto simp: exits_from_def)
  have "fd a = (p1 @ p2) @ fd c" using p1 p2 by simp
  moreover have "k = In_putmsg \<longrightarrow>
      io c = \<lparr>retval = -1, error = EINVAL\<rparr> \<and> p1 @ p2 \<noteq> [] \<and> IS_CHANNEL (last (p1 @ p2))"
    using f by auto
  ultimately show ?thesis
    unfolding exits_from_def using d e g w by metis
qed

text \<open>Sequencing: the rest of a function runs on the stream its first call returned.\<close>

lemma result_from_seq:
  assumes "result_from a r"
    and "\<And>x m. r = Ret x m \<Longrightarrow> result_from m (f x m)"
  shows "result_from a (case r of Exit k m \<Rightarrow> Exit k m | Ret x m \<Rightarrow> f x m)"
proof (cases r)
  case (Exit k m)
  with assms(1) show ?thesis by (simp add: result_from_def)
next
  case (Ret x m)
  with assms(1) have ab: "returns_from a m" by (simp add: result_from_def)
  from assms(2) [OF Ret] have "result_from m (f x m)" .
  with ab have "result_from a (f x m)"
    by (auto simp: result_from_def split: thr.splits
        intro: returns_from_trans returns_then_exits)
  with Ret show ?thesis by simp
qed

text \<open>The relations look at the input and at \<^verbatim>\<open>errno\<close> only: taking or releasing a
  mutex and storing into \<^verbatim>\<open>global\<close> do not matter on the left.\<close>

lemma result_from_same:
  "fd a' = fd a \<Longrightarrow> fd_end a' = fd_end a \<Longrightarrow> errno a' = errno a \<Longrightarrow>
   result_from a' r = result_from a r"
  by (simp add: result_from_def exits_from_def returns_from_def split: thr.splits)

lemma returns_from_same:
  "fd m' = fd m \<Longrightarrow> fd_end m' = fd_end m \<Longrightarrow> errno m' = errno m \<Longrightarrow>
   returns_from a m' = returns_from a m"
  by (simp add: returns_from_def)

lemma getbyte_result: "result_from mss (getbyte mss)"
  by (auto simp: result_from_def exits_from_def returns_from_def getbyte_def read_fd_def
      Let_def split: list.splits rend.splits)

lemma putbyte_result: "result_from mss (putbyte mss b)"
  by (auto simp: result_from_def exits_from_def returns_from_def putbyte_def write_fd_def
      Let_def wres_ret.simps split: wres.splits)

lemma returns_then_result:
  "returns_from a b \<Longrightarrow> result_from b r \<Longrightarrow> result_from a r"
  by (auto simp: result_from_def split: thr.splits
      intro: returns_from_trans returns_then_exits)

lemma result_from_Ret_upd:
  "fd m' = fd m \<Longrightarrow> fd_end m' = fd_end m \<Longrightarrow> errno m' = errno m \<Longrightarrow>
   result_from m (Ret x m')"
  by (simp add: returns_from_def)

lemma putmsg_loop_result: "result_from mss (putmsg_loop i count mss)"
proof (induction i count mss rule: putmsg_loop.induct)
  case (1 i count mss)
  show ?case
  proof (cases "i \<le> count")
    case False
    then show ?thesis
      by (simp add: putmsg_loop.simps returns_from_refl)
  next
    case le: True
    show ?thesis
    proof (cases "getbyte mss")
      case (Exit k m)
      with getbyte_result [of mss] le show ?thesis
        by (simp add: putmsg_loop.simps)
    next
      case (Ret byte m)
      with getbyte_result [of mss] have rm: "returns_from mss m"
        by simp
      from getbyte_Ret_fd [OF Ret] have fd: "fd mss = [byte] @ fd m" by simp
      show ?thesis
      proof (cases "IS_CHANNEL byte")
        case True
        have "exits_from mss In_putmsg
                (m\<lparr>io := \<lparr>retval = -1, error = EINVAL\<rparr>, done_flag := True\<rparr>)"
          unfolding exits_from_def using rm fd True
          by (auto simp: returns_from_def intro!: exI [of _ "[byte]"])
        with le Ret True show ?thesis
          by (simp add: putmsg_loop.simps)
      next
        case False
        have "result_from m
                (case putbyte m byte of
                   Exit k m' \<Rightarrow> Exit k m'
                 | Ret u m' \<Rightarrow> putmsg_loop (if \<not> IS_SYSRT byte then i + 1 else i) count m')"
          by (rule result_from_seq [OF putbyte_result]) (rule "1.IH" [OF le Ret False])
        from returns_then_result [OF rm this] le Ret False show ?thesis
          by (simp add: putmsg_loop.simps)
      qed
    qed
  qed
qed

lemma putmsg_loop_result_upd:
  "fd m' = fd m \<Longrightarrow> fd_end m' = fd_end m \<Longrightarrow> errno m' = errno m \<Longrightarrow>
   result_from m (putmsg_loop i count m')"
  using putmsg_loop_result [of m' i count]
    result_from_same [of m m' "putmsg_loop i count m'"] by simp

lemma putmsg_result: "result_from mss (putmsg mss status byte count)"
  unfolding putmsg_unfold
  by (auto intro!: result_from_seq putbyte_result putmsg_loop_result
      putmsg_loop_result_upd result_from_Ret_upd
      simp: returns_from_refl)

lemma sox_loop_result: "result_from mss (sox_loop byte mss)"
proof (induction byte mss rule: sox_loop.induct)
  case (1 byte mss)
  have "result_from mss
          (case putbyte mss byte of
             Exit k m \<Rightarrow> Exit k m
           | Ret u m \<Rightarrow>
               (case getbyte m of
                  Exit k m' \<Rightarrow> Exit k m'
                | Ret byte' m' \<Rightarrow>
                    if \<not> IS_EOX byte' then sox_loop byte' m' else Ret byte' m'))"
  proof (rule result_from_seq [OF putbyte_result], rule result_from_seq [OF getbyte_result])
    fix u m byte' m'
    assume p: "putbyte mss byte = Ret u m" and g: "getbyte m = Ret byte' m'"
    show "result_from m' (if \<not> IS_EOX byte' then sox_loop byte' m' else Ret byte' m')"
      using "1.IH" [OF p g] by (simp add: returns_from_refl)
  qed
  then show ?case by (subst sox_loop.simps)
qed

lemma run_body_result: "result_from mss (run_body status count mss)"
  unfolding run_body_reached
  by (rule result_from_seq [OF getbyte_result])
     (auto intro!: result_from_seq result_from_Ret_upd
      simp: LOCK_lockp_def UNLOCK_lockp_def LOCK_rtlockp_def UNLOCK_rtlockp_def
      intro: result_from_same [THEN iffD1, OF _ _ _ putbyte_result]
             result_from_same [THEN iffD1, OF _ _ _ putmsg_result])

text \<open>Every run of a worker on an input that ends does end the thread, and this is
  what it leaves.\<close>

lemma run_loop_exits:
  "exits_from mss (fst (run_loop status count mss)) (snd (run_loop status count mss))"
proof (induction status count mss rule: run_loop.induct)
  case (1 status count mss)
  show ?case
  proof (cases "run_body status count mss")
    case (Exit k m)
    with run_body_result [of mss status count] show ?thesis
      by (simp add: run_loop.simps)
  next
    case (Ret sc m)
    with run_body_result [of mss status count] have "returns_from mss m"
      by simp
    from returns_then_exits [OF this "1.IH" [OF Ret]] Ret show ?thesis
      by (simp add: run_loop.simps)
  qed
qed

subsection \<open>The calls of write a helper makes\<close>

lemma putmsg_loop_step:
  "i \<le> count \<Longrightarrow> getbyte mss = Ret byte m \<Longrightarrow> \<not> IS_CHANNEL byte \<Longrightarrow>
   putbyte m byte = Ret u m' \<Longrightarrow>
   putmsg_loop i count mss = putmsg_loop (if \<not> IS_SYSRT byte then i + 1 else i) count m'"
  by (subst putmsg_loop.simps) simp


lemma getbyte_global: "global (stream_of (getbyte mss)) = global mss"
  by (simp add: getbyte_def read_fd_def Let_def split: list.splits rend.splits)

lemma putbyte_calls:
  "\<exists>c. out_calls (global (stream_of (putbyte mss b))) = out_calls (global mss) @ [c] \<and>
       wbyte c = b \<and> wlock c = lock (global mss) \<and> wlock_rt c = lock_rt (global mss)"
  by (simp add: putbyte_def write_fd_def Let_def)

lemma putbyte_global_status:
  "global_status (global (stream_of (putbyte mss b))) = global_status (global mss)"
  by (simp add: putbyte_def write_fd_def Let_def)

text \<open>The loop of \<^verbatim>\<open>putmsg\<close> hands on no byte with the top bit set, and leaves
  \<^verbatim>\<open>global->status\<close> alone.\<close>

lemma putmsg_loop_calls:
  "\<exists>cs. out_calls (global (stream_of (putmsg_loop i count mss))) = out_calls (global mss) @ cs \<and>
        (\<forall>c\<in>set cs. \<not> IS_CHANNEL (wbyte c))"
proof (induction i count mss rule: putmsg_loop.induct)
  case (1 i count mss)
  show ?case
  proof (cases "i \<le> count")
    case False
    then show ?thesis by (simp add: putmsg_loop.simps)
  next
    case le: True
    show ?thesis
    proof (cases "getbyte mss")
      case (Exit k m)
      with getbyte_global [of mss] le show ?thesis
        by (simp add: putmsg_loop.simps)
    next
      case (Ret byte m)
      with getbyte_global [of mss] have gm: "global m = global mss" by simp
      show ?thesis
      proof (cases "IS_CHANNEL byte")
        case True
        with le Ret gm show ?thesis by (simp add: putmsg_loop.simps)
      next
        case nc: False
        from putbyte_calls [of m byte] gm obtain c where
          c: "out_calls (global (stream_of (putbyte m byte))) = out_calls (global mss) @ [c]"
             "wbyte c = byte"
          by auto
        show ?thesis
        proof (cases "putbyte m byte")
          case (Exit k m')
          with le Ret nc c show ?thesis
            by (simp add: putmsg_loop.simps)
        next
          case Ret2: (Ret u m')
          let ?i = "if \<not> IS_SYSRT byte then i + 1 else i"
          from "1.IH" [OF le Ret nc Ret2] obtain cs where
            cs: "out_calls (global (stream_of (putmsg_loop ?i count m'))) =
                   out_calls (global m') @ cs"
                "\<forall>c\<in>set cs. \<not> IS_CHANNEL (wbyte c)"
            by auto
          from c Ret2 have "out_calls (global m') = out_calls (global mss) @ [c]" by simp
          with cs have
            "out_calls (global (stream_of (putmsg_loop ?i count m'))) =
               out_calls (global mss) @ (c # cs)"
            by simp
          moreover from cs c nc have "\<forall>c'\<in>set (c # cs). \<not> IS_CHANNEL (wbyte c')" by simp
          ultimately show ?thesis
            unfolding putmsg_loop_step [OF le Ret nc Ret2] by blast
        qed
      qed
    qed
  qed
qed

lemma putmsg_loop_global_status:
  "global_status (global (stream_of (putmsg_loop i count mss))) = global_status (global mss)"
proof (induction i count mss rule: putmsg_loop.induct)
  case (1 i count mss)
  show ?case
  proof (cases "i \<le> count")
    case False
    then show ?thesis by (simp add: putmsg_loop.simps)
  next
    case le: True
    show ?thesis
    proof (cases "getbyte mss")
      case (Exit k m)
      with getbyte_global [of mss] le show ?thesis
        by (simp add: putmsg_loop.simps)
    next
      case (Ret byte m)
      with getbyte_global [of mss] have gm: "global m = global mss" by simp
      show ?thesis
      proof (cases "IS_CHANNEL byte")
        case True
        with le Ret gm show ?thesis by (simp add: putmsg_loop.simps)
      next
        case nc: False
        show ?thesis
        proof (cases "putbyte m byte")
          case (Exit k m')
          with putbyte_global_status [of m byte] le Ret nc gm show ?thesis
            by (simp add: putmsg_loop.simps)
        next
          case Ret2: (Ret u m')
          from "1.IH" [OF le Ret nc Ret2] putbyte_global_status [of m byte] Ret2 gm
          show ?thesis
            unfolding putmsg_loop_step [OF le Ret nc Ret2] by simp
        qed
      qed
    qed
  qed
qed

text \<open>The calls of \<^verbatim>\<open>putmsg\<close> for a \<^verbatim>\<open>status\<close> with the top bit set: when
  \<^verbatim>\<open>global->status\<close> differs from \<^verbatim>\<open>status\<close> the first call hands on \<^verbatim>\<open>status\<close> and no
  later one does; otherwise no call does.\<close>

lemma putmsg_calls:
  assumes ch: "IS_CHANNEL status"
  shows "\<exists>cs. out_calls (global (stream_of (putmsg mss status byte count))) =
          out_calls (global mss) @ cs \<and>
        (if global_status (global mss) \<noteq> status
         then cs \<noteq> [] \<and> wbyte (hd cs) = status \<and> status \<notin> wbyte ` set (tl cs)
         else status \<notin> wbyte ` set cs)"
proof -
  let ?Q = "\<lambda>cs. status \<notin> wbyte ` set cs"
  have first: "\<exists>cs. out_calls (global (stream_of
                  (case putbyte s b of Exit k m \<Rightarrow> Exit k m | Ret u m \<Rightarrow> f m))) =
                out_calls (global s) @ cs \<and> cs \<noteq> [] \<and> wbyte (hd cs) = b \<and> ?Q (tl cs)"
    if f: "\<And>u m. putbyte s b = Ret u m \<Longrightarrow>
             \<exists>cs. out_calls (global (stream_of (f m))) = out_calls (global m) @ cs \<and> ?Q cs"
    for s b and f :: "MIDIStream \<Rightarrow> unit thr"
  proof -
    from putbyte_calls [of s b] obtain c where
      c: "out_calls (global (stream_of (putbyte s b))) = out_calls (global s) @ [c]"
         "wbyte c = b"
      by auto
    show ?thesis
    proof (cases "putbyte s b")
      case (Exit k m)
      with c show ?thesis by simp
    next
      case (Ret u m)
      from f [OF Ret] obtain cs where
        cs: "out_calls (global (stream_of (f m))) = out_calls (global m) @ cs" "?Q cs"
        by blast
      with c Ret have "out_calls (global (stream_of (f m))) = out_calls (global s) @ (c # cs)"
        by simp
      with c cs Ret show ?thesis by (intro exI [of _ "c # cs"]) simp
    qed
  qed
  have loop: "\<exists>cs. out_calls (global (stream_of (putmsg_loop i count m))) =
                out_calls (global m) @ cs \<and> ?Q cs" for i m
  proof -
    from putmsg_loop_calls [of i count m] obtain cs where
      cs: "out_calls (global (stream_of (putmsg_loop i count m))) = out_calls (global m) @ cs"
          "\<forall>c\<in>set cs. \<not> IS_CHANNEL (wbyte c)"
      by blast
    with ch have "?Q cs" by auto
    with cs show ?thesis by blast
  qed
  have loop_upd: "\<exists>cs. out_calls (global (stream_of
                    (putmsg_loop i count (m\<lparr>global := (global m)\<lparr>global_status := x\<rparr>\<rparr>)))) =
                out_calls (global m) @ cs \<and> ?Q cs" for i m x
    using loop [of i "m\<lparr>global := (global m)\<lparr>global_status := x\<rparr>\<rparr>"] by simp
  have second: "\<exists>cs. out_calls (global (stream_of
               (case putbyte m byte of
                  Exit k m' \<Rightarrow> Exit k m'
                | Ret u' m' \<Rightarrow> putmsg_loop 1 count m'))) =
             out_calls (global m) @ cs \<and> ?Q cs" if ne: "byte \<noteq> status" for m
  proof -
    have "\<exists>cs. out_calls (global (stream_of
               (case putbyte m byte of
                  Exit k m' \<Rightarrow> Exit k m'
                | Ret u' m' \<Rightarrow> putmsg_loop 1 count m'))) =
             out_calls (global m) @ cs \<and> cs \<noteq> [] \<and> wbyte (hd cs) = byte \<and> ?Q (tl cs)"
      by (rule first) (rule loop)
    then obtain cs where
      cs: "out_calls (global (stream_of
               (case putbyte m byte of
                  Exit k m' \<Rightarrow> Exit k m'
                | Ret u' m' \<Rightarrow> putmsg_loop 1 count m'))) = out_calls (global m) @ cs"
          "cs \<noteq> []" "wbyte (hd cs) = byte" "?Q (tl cs)"
      by blast
    from cs(2-4) ne have "?Q cs" by (cases cs) auto
    with cs(1) show ?thesis by blast
  qed
  show ?thesis
  proof (cases "global_status (global mss) \<noteq> status")
    case True
    show ?thesis
    proof (cases "byte = status")
      case eq: True
      have "\<exists>cs. out_calls (global (stream_of
               (case putbyte mss status of
                  Exit k m \<Rightarrow> Exit k m
                | Ret u m \<Rightarrow>
                    putmsg_loop 0 count (m\<lparr>global := (global m)\<lparr>global_status := status\<rparr>\<rparr>)))) =
             out_calls (global mss) @ cs \<and> cs \<noteq> [] \<and> wbyte (hd cs) = status \<and> ?Q (tl cs)"
        by (rule first) (rule loop_upd)
      with True eq show ?thesis by (simp add: putmsg_unfold)
    next
      case ne: False
      have "\<exists>cs. out_calls (global (stream_of
               (case putbyte mss status of
                  Exit k m \<Rightarrow> Exit k m
                | Ret u m \<Rightarrow>
                    (case putbyte (m\<lparr>global := (global m)\<lparr>global_status := status\<rparr>\<rparr>) byte of
                       Exit k m' \<Rightarrow> Exit k m'
                     | Ret u' m' \<Rightarrow> putmsg_loop 1 count m')))) =
             out_calls (global mss) @ cs \<and> cs \<noteq> [] \<and> wbyte (hd cs) = status \<and> ?Q (tl cs)"
      proof (rule first)
        fix u m
        from second [OF ne, of "m\<lparr>global := (global m)\<lparr>global_status := status\<rparr>\<rparr>"]
        show "\<exists>cs. out_calls (global (stream_of
               (case putbyte (m\<lparr>global := (global m)\<lparr>global_status := status\<rparr>\<rparr>) byte of
                  Exit k m' \<Rightarrow> Exit k m'
                | Ret u' m' \<Rightarrow> putmsg_loop 1 count m'))) =
             out_calls (global m) @ cs \<and> ?Q cs"
          by auto
      qed
      moreover have "putmsg mss status byte count =
          (case putbyte mss status of
             Exit k m \<Rightarrow> Exit k m
           | Ret u m \<Rightarrow>
               (case putbyte (m\<lparr>global := (global m)\<lparr>global_status := status\<rparr>\<rparr>) byte of
                  Exit k m' \<Rightarrow> Exit k m'
                | Ret u' m' \<Rightarrow> putmsg_loop 1 count m'))"
        using True ne by (simp add: putmsg_unfold split: thr.splits)
      ultimately show ?thesis using True by simp
    qed
  next
    case False
    show ?thesis
    proof (cases "byte = status")
      case eq: True
      with False loop [of 0 mss] show ?thesis
        by (simp add: putmsg_unfold)
    next
      case ne: False
      with False second [OF ne, of mss] show ?thesis by (simp add: putmsg_unfold)
    qed
  qed
qed

text \<open>The blocks before the loop hand on \<^verbatim>\<open>status\<close> first exactly when
  \<^verbatim>\<open>global->status\<close> differs from it, whatever the two bytes are.\<close>

lemma putmsg_head_first:
  "take 1 (map wbyte (new_calls mss (stream_of (putmsg_head mss status byte)))) = [status]
     \<longleftrightarrow> global_status (global mss) \<noteq> status"
  by (auto simp: putmsg_head_def putbyte_def write_fd_def new_calls_def Let_def)

lemma putmsg_head_handed:
  "returned (putmsg_head mss status byte) \<Longrightarrow>
   map wbyte (new_calls mss (stream_of (putmsg_head mss status byte))) =
     (if global_status (global mss) \<noteq> status then [status] else []) @
     (if byte \<noteq> status then [byte] else [])"
  by (auto simp: putmsg_head_def putbyte_def write_fd_def new_calls_def Let_def
      split: if_splits)

lemma putmsg_global_status:
  "putmsg mss status byte count = Ret u m \<Longrightarrow> global_status (global m) = status"
proof -
  have loop: "global_status (global m') = global_status (global s)"
    if "putmsg_loop i count s = Ret u' m'" for i s u' m'
    using putmsg_loop_global_status [of i count s] that by simp
  have put: "global_status (global m') = global_status (global s)"
    if "putbyte s b = Ret u' m'" for s b u' m'
    using putbyte_global_status [of s b] that by simp
  assume "putmsg mss status byte count = Ret u m"
  then show ?thesis
    unfolding putmsg_unfold
    by (auto split: if_splits thr.splits dest!: loop put)
qed

subsection \<open>Where a thread can end\<close>

text \<open>
  \<^verbatim>\<open>getbyte\<close> and \<^verbatim>\<open>putbyte\<close> end the thread with their own records, and so do the
  blocks of \<^verbatim>\<open>putmsg\<close> before its loop and the loop of the \<^verbatim>\<open>IS_SOX\<close> branch, which only
  call \<^verbatim>\<open>putbyte\<close> and \<^verbatim>\<open>getbyte\<close>. The one framing exit is in the loop of \<^verbatim>\<open>putmsg\<close>: the
  loop test \<^verbatim>\<open>i <= count\<close> held, the byte read has the top bit set, the bytes the loop
  took before it have not, and \<^verbatim>\<open>i\<close> has counted those of them that fail \<^verbatim>\<open>IS_SYSRT\<close>.
  \<^verbatim>\<open>run\<close> calls \<^verbatim>\<open>putmsg\<close> between \<^verbatim>\<open>LOCK(lockp)\<close> and \<^verbatim>\<open>UNLOCK(lockp)\<close>, and no helper
  touches that mutex.
\<close>

lemma getbyte_exit_site: "getbyte s = Exit k m \<Longrightarrow> k = In_getbyte"
  by (auto simp: getbyte_def read_fd_def Let_def split: list.splits rend.splits if_splits)

lemma putbyte_exit_site: "putbyte s b = Exit k m \<Longrightarrow> k = In_putbyte"
  by (auto simp: putbyte_def write_fd_def Let_def split: if_splits)





lemma sox_loop_exit_site: "sox_loop byte s = Exit k m \<Longrightarrow> k \<noteq> In_putmsg"
proof (induction byte s rule: sox_loop.induct)
  case (1 byte s)
  show ?case
  proof (cases "putbyte s byte")
    case (Exit k1 m1)
    with "1.prems" putbyte_exit_site [OF Exit] show ?thesis
      by (subst (asm) sox_loop.simps) auto
  next
    case p: (Ret u m1)
    show ?thesis
    proof (cases "getbyte m1")
      case (Exit k2 m2)
      with p "1.prems" getbyte_exit_site [OF Exit] show ?thesis
        by (subst (asm) sox_loop.simps) auto
    next
      case g: (Ret byte' m2)
      show ?thesis
      proof (cases "IS_EOX byte'")
        case True
        with p g "1.prems" show ?thesis
          by (subst (asm) sox_loop.simps) auto
      next
        case False
        with p g "1.prems" have "sox_loop byte' m2 = Exit k m"
          by (subst (asm) sox_loop.simps) auto
        from "1.IH" [OF p g False this] show ?thesis .
      qed
    qed
  qed
qed





section \<open>Facts about main\<close>

text \<open>A pass over the workers reports \<^verbatim>\<open>done\<close> exactly when every worker is joined or
  has its flag set, and then all of them are joined.\<close>

lemma sweep_length: "length (snd (sweep v is s)) = length (snd s)"
  by (induction v "is" s rule: sweep.induct) auto

lemma sweep_fst:
  "\<forall>i\<in>set is. i < length joined \<Longrightarrow>
   fst (sweep v is (d, joined)) \<longleftrightarrow> d \<and> (\<forall>i\<in>set is. joined ! i \<or> done_flag (v i))"
proof (induction "is" arbitrary: d joined)
  case Nil
  then show ?case by simp
next
  case (Cons i rest)
  then show ?case
    by (auto simp: nth_list_update)
qed

lemma sweep_keeps:
  "joined ! i \<Longrightarrow> i < length joined \<Longrightarrow> snd (sweep v is (d, joined)) ! i"
proof (induction "is" arbitrary: d joined)
  case Nil
  then show ?case by simp
next
  case (Cons a rest)
  have "(joined[a := True]) ! i" "i < length (joined[a := True])"
    using Cons.prems by (cases "a < length joined"; simp add: nth_list_update)+
  from Cons.IH [OF this] Cons.IH [OF Cons.prems] show ?case by simp
qed

lemma sweep_not_done: "\<not> fst (sweep v is (False, joined))"
  by (induction "is" arbitrary: joined) auto

lemma sweep_joins:
  "\<forall>i\<in>set is. i < length joined \<Longrightarrow> fst (sweep v is (d, joined)) \<Longrightarrow>
   \<forall>i\<in>set is. snd (sweep v is (d, joined)) ! i"
proof (induction "is" arbitrary: d joined)
  case Nil
  then show ?case by simp
next
  case (Cons i rest)
  then show ?case
    by (auto simp: nth_list_update sweep_keeps sweep_not_done split: if_splits)
qed

lemma sweep_same:
  "\<forall>i\<in>set is. done_flag (v' i) = done_flag (v i) \<Longrightarrow> sweep v' is s = sweep v is s"
  by (induction v "is" s rule: sweep.induct) auto

lemma poll_joined:
  "poll view n k joined = Some y \<Longrightarrow> length joined = n \<Longrightarrow> length y = n \<and> (\<forall>i<n. y ! i)"
proof (induction rule: poll.raw_induct [rotated 1, consumes 1])
  case (1 poll' view n k joined y)
  let ?s = "sweep (view k) [0..<n] (True, joined)"
  show ?case
  proof (cases "fst ?s")
    case True
    with "1.hyps" have y: "y = snd ?s" by (simp add: Let_def)
    from "1.prems" have "\<forall>i\<in>set [0..<n]. i < length joined" by simp
    from sweep_joins [OF this True] sweep_length [of "view k" "[0..<n]" "(True, joined)"]
      "1.prems" y
    show ?thesis by simp
  next
    case False
    with "1.hyps" have "poll' view n (Suc k) (snd ?s) = Some y" by (simp add: Let_def)
    from "1.IH" [OF this] sweep_length [of "view k" "[0..<n]" "(True, joined)"] "1.prems"
    show ?thesis by simp
  qed
qed

lemma poll_returns:
  "\<forall>i<n. done_flag (view K i) \<Longrightarrow> k \<le> K \<Longrightarrow> length joined = n \<Longrightarrow>
   \<exists>y. poll view n k joined = Some y"
proof (induction "K - k" arbitrary: k joined)
  case 0
  then have "k = K" by simp
  with "0.prems" have "fst (sweep (view k) [0..<n] (True, joined))"
    by (simp add: sweep_fst)
  then show ?case by (subst poll.simps) (simp add: Let_def)
next
  case (Suc d)
  let ?s = "sweep (view k) [0..<n] (True, joined)"
  show ?case
  proof (cases "fst ?s")
    case True
    then show ?thesis by (subst poll.simps) (simp add: Let_def)
  next
    case False
    from Suc.hyps(2) have "d = K - Suc k" "Suc k \<le> K" by simp_all
    from Suc.hyps(1) [OF this(1) Suc.prems(1) this(2), of "snd ?s"] Suc.prems(3)
    obtain y where "poll view n (Suc k) (snd ?s) = Some y"
      by (auto simp: sweep_length)
    with False show ?thesis by (subst poll.simps) (simp add: Let_def)
  qed
qed

lemma poll_same_Some:
  "poll view n k joined = Some y \<Longrightarrow>
   (\<And>k i. done_flag (view' k i) = done_flag (view k i)) \<Longrightarrow>
   poll view' n k joined = Some y"
proof (induction rule: poll.raw_induct [rotated 1, consumes 1])
  case (1 poll' view n k joined y)
  let ?s = "sweep (view k) [0..<n] (True, joined)"
  from "1.prems" have s: "sweep (view' k) [0..<n] (True, joined) = ?s"
    by (intro sweep_same) simp
  show ?case
  proof (cases "fst ?s")
    case True
    with "1.hyps" s show ?thesis
      by (subst poll.simps) (simp add: Let_def)
  next
    case False
    with "1.hyps" have "poll' view n (Suc k) (snd ?s) = Some y" by (simp add: Let_def)
    from "1.IH" [OF this "1.prems"] False s show ?thesis
      by (subst poll.simps) (simp add: Let_def)
  qed
qed

lemma poll_same:
  assumes "\<And>k i. done_flag (view' k i) = done_flag (view k i)"
  shows "poll view' n k joined = poll view n k joined"
proof (cases "poll view n k joined")
  case (Some y)
  from poll_same_Some [OF this assms] Some show ?thesis by simp
next
  case None
  show ?thesis
  proof (cases "poll view' n k joined")
    case (Some y)
    from poll_same_Some [OF this, of view] assms None show ?thesis by simp
  next
    case N: None
    with None show ?thesis by simp
  qed
qed

lemma main_loop_no_output:
  "open_wr env None = None \<Longrightarrow> main_loop env argv i st = Inr st' \<Longrightarrow> out st = 0 \<Longrightarrow>
   out st' = 0"
proof (induction env argv i st rule: main_loop.induct)
  case (1 env argv i st)
  from "1.prems"(2) show ?case
    apply (subst (asm) main_loop.simps)
    using "1.prems"(1,3) "1.IH"
    apply (auto simp: Let_def argv_at_def split: if_splits option.splits)
    done
qed

section \<open>The claims\<close>

subsection \<open>End of input\<close>

text \<open>
  C8. When the read of a worker's input reports a clean end of input, the worker ends
  with the terminal status ok, recorded apart from a read error.

  In the code the terminal status is the pair \<^verbatim>\<open>io.retval\<close>, \<^verbatim>\<open>io.error\<close>. \<^verbatim>\<open>getbyte\<close> at
  the end of the input ends the thread with \<^verbatim>\<open>retval\<close> 0 and \<^verbatim>\<open>done\<close> set; \<^verbatim>\<open>error\<close> is
  the thread's \<^verbatim>\<open>errno\<close>, which no call has set (for a thread started by \<^verbatim>\<open>main\<close> the
  record is the one \<^verbatim>\<open>mss_init\<close> wrote, 0 and 0). A read error leaves \<^verbatim>\<open>retval\<close> -1 and
  its \<^verbatim>\<open>errno\<close>. For a whole run of a worker: it ends with \<^verbatim>\<open>retval\<close> 0 exactly when it
  ends in \<^verbatim>\<open>getbyte\<close> on an input that ended cleanly, so no other way of ending is
  recorded as this one.
\<close>

theorem end_of_input_status:
  "(fd s = [] \<and> fd_end s = EndOfFile \<longrightarrow>
      getbyte s = Exit In_getbyte (s\<lparr>io := \<lparr>retval = 0, error = errno s\<rparr>, done_flag := True\<rparr>)) \<and>
   (run count0 mss = (k, m) \<longrightarrow>
      (retval (io m) = 0 \<longleftrightarrow> k = In_getbyte \<and> fd_end mss = EndOfFile) \<and>
      (k = In_getbyte \<and> fd_end mss = EndOfFile \<longrightarrow>
         done_flag m \<and> fd m = [] \<and> io m = \<lparr>retval = 0, error = errno mss\<rparr>) \<and>
      (\<forall>e. k = In_getbyte \<and> fd_end mss = ReadError e \<longrightarrow>
         done_flag m \<and> io m = \<lparr>retval = -1, error = e\<rparr>))"
proof -
  have g: "getbyte s = Exit In_getbyte (s\<lparr>io := \<lparr>retval = 0, error = errno s\<rparr>, done_flag := True\<rparr>)"
    if "fd s = [] \<and> fd_end s = EndOfFile"
    using that by (simp add: getbyte_def read_fd_def)
  have r: "(retval (io m) = 0 \<longleftrightarrow> k = In_getbyte \<and> fd_end mss = EndOfFile) \<and>
      (k = In_getbyte \<and> fd_end mss = EndOfFile \<longrightarrow>
         done_flag m \<and> fd m = [] \<and> io m = \<lparr>retval = 0, error = errno mss\<rparr>) \<and>
      (\<forall>e. k = In_getbyte \<and> fd_end mss = ReadError e \<longrightarrow>
         done_flag m \<and> io m = \<lparr>retval = -1, error = e\<rparr>)"
    if "run count0 mss = (k, m)"
  proof -
    from that run_loop_exits [of mss 0 count0] have x: "exits_from mss k m"
      by (simp add: run_def)
    show ?thesis
    proof (cases k)
      case In_getbyte
      with x show ?thesis
        by (cases "fd_end mss") (auto simp: exits_from_def)
    next
      case In_putbyte
      with x show ?thesis by (auto simp: exits_from_def)
    next
      case In_putmsg
      with x show ?thesis by (auto simp: exits_from_def)
    qed
  qed
  from g r show ?thesis by blast
qed

text \<open>
  The input F8 01 on an output whose writes return 0: both bytes are handed on, the
  third read finds the end of the input, and the worker ends with \<^verbatim>\<open>retval\<close> 0. The empty
  input that fails with \<^verbatim>\<open>errno\<close> 5 ends the worker with \<^verbatim>\<open>retval\<close> -1 and \<^verbatim>\<open>error\<close> 5.
\<close>

theorem end_of_input_status_witness:
  "fd (worker [] all_written) = [] \<and> fd_end (worker [] all_written) = EndOfFile \<and>
   getbyte (worker [] all_written) =
     Exit In_getbyte ((worker [] all_written)\<lparr>io := \<lparr>retval = 0, error = 0\<rparr>, done_flag := True\<rparr>) \<and>
   fst (run 0 (worker [0xF8, 0x01] none_written)) = In_getbyte \<and>
   io (snd (run 0 (worker [0xF8, 0x01] none_written))) = \<lparr>retval = 0, error = 0\<rparr> \<and>
   fst (run 0 (mss_init ([], ReadError 5) global_init)) = In_getbyte \<and>
   io (snd (run 0 (mss_init ([], ReadError 5) global_init))) = \<lparr>retval = -1, error = 5\<rparr>"
proof -
  let ?a = "worker [] all_written"
  let ?b = "worker [0xF8, 0x01] none_written"
  let ?c = "mss_init ([], ReadError 5) global_init"
  have a: "fd ?a = [] \<and> fd_end ?a = EndOfFile" and ea: "errno ?a = 0"
    by (simp_all add: worker_def mss_init_def)
  have b: "fst (run 0 ?b) = In_getbyte"
    by code_simp
  have eb: "fd_end ?b = EndOfFile" "errno ?b = 0"
    by (simp_all add: worker_def mss_init_def)
  have c: "fst (run 0 ?c) = In_getbyte"
    by code_simp
  have ec: "fd_end ?c = ReadError 5"
    by (simp add: mss_init_def)
  note t = end_of_input_status
  from t [of ?a] a ea
  have 1: "getbyte ?a = Exit In_getbyte (?a\<lparr>io := \<lparr>retval = 0, error = 0\<rparr>, done_flag := True\<rparr>)"
    by simp
  from b have rb: "run 0 ?b = (In_getbyte, snd (run 0 ?b))"
    by (simp add: prod_eq_iff)
  from t [of ?a 0 ?b In_getbyte "snd (run 0 ?b)"] rb eb
  have 2: "io (snd (run 0 ?b)) = \<lparr>retval = 0, error = 0\<rparr>"
    by simp
  from c have rc: "run 0 ?c = (In_getbyte, snd (run 0 ?c))"
    by (simp add: prod_eq_iff)
  from t [of ?a 0 ?c In_getbyte "snd (run 0 ?c)"] rc ec
  have 3: "io (snd (run 0 ?c)) = \<lparr>retval = -1, error = 5\<rparr>"
    by simp
  from a 1 b 2 c 3 show ?thesis by simp
qed

subsection \<open>Running status in putmsg\<close>


subsection \<open>Framing errors\<close>




subsection \<open>putbyte\<close>

text \<open>\<^verbatim>\<open>putbyte\<close> returns to its caller exactly when \<^verbatim>\<open>write\<close> returned 0.\<close>

lemma putbyte_returned:
  "returned (putbyte mss b) \<longleftrightarrow>
     out_res (global mss) (length (out_calls (global mss))) = NotWritten"
  by (cases "out_res (global mss) (length (out_calls (global mss)))")
     (simp_all add: putbyte_def write_fd_def Let_def)

text \<open>
  C7. The byte-write operation succeeds, and the worker goes on, exactly when the
  write completes one byte; every other outcome is recorded as a write error and ends
  the worker.

  \<^verbatim>\<open>putbyte\<close> tests \<^verbatim>\<open>write(...) != 0\<close>, where \<^verbatim>\<open>getbyte\<close> tests \<^verbatim>\<open>read(...) <= 0\<close>. A
  write that completes returns 1: the byte 3C reaches the output, and \<^verbatim>\<open>putbyte\<close> ends
  the thread with \<^verbatim>\<open>retval\<close> 1. A write that returns 0 has written nothing, and
  \<^verbatim>\<open>putbyte\<close> returns to its caller.
\<close>

theorem putbyte_completed_write:
  "\<not> returned (putbyte (worker [] all_written) 0x3C) \<and>
   sink (global (stream_of (putbyte (worker [] all_written) 0x3C))) = [0x3C] \<and>
   io (stream_of (putbyte (worker [] all_written) 0x3C)) = \<lparr>retval = 1, error = 0\<rparr> \<and>
   done_flag (stream_of (putbyte (worker [] all_written) 0x3C)) \<and>
   returned (putbyte (worker [] none_written) 0x3C) \<and>
   sink (global (stream_of (putbyte (worker [] none_written) 0x3C))) = [] \<and>
   \<not> done_flag (stream_of (putbyte (worker [] none_written) 0x3C))"
  by code_simp

subsection \<open>The bytes taken as real-time\<close>

text \<open>
  C1. A byte read at the top of the framing loop is treated as a System Real-Time
  message (written as a single byte under \<^verbatim>\<open>rt_lock\<close>, \<^verbatim>\<open>global_status\<close> and the worker's
  status unchanged) if and only if it lies in 0xF8..0xFF.

  \<^verbatim>\<open>IS_SYSRT(b)\<close> is \<^verbatim>\<open>(b) & 0xF8\<close>, true for every byte from 0x08 on (\<open>IS_SYSRT_iff\<close>).
  The Note On 90 3C 7F on an output whose writes return 0: each of the three bytes is
  written on its own with \<^verbatim>\<open>lock_rt\<close> held and \<^verbatim>\<open>lock\<close> free, as a real-time byte is.
  When the writes complete, the worker ends after the first one.
\<close>

theorem note_on_taken_as_realtime:
  "IS_SYSRT 0x90 \<and> IS_SYSRT 0x3C \<and> IS_SYSRT 0x7F \<and>
   calls_of (run 0 (worker [0x90, 0x3C, 0x7F] none_written)) =
     [(0x90, False, True), (0x3C, False, True), (0x7F, False, True)] \<and>
   calls_of (run 0 (worker [0x90, 0x3C, 0x7F] all_written)) = [(0x90, False, True)] \<and>
   fst (run 0 (worker [0x90, 0x3C, 0x7F] all_written)) = In_putbyte"
  by code_simp

text \<open>
  C2. A worker that reads 0xF0 at the top of its framing loop writes 0xF0, then reads
  and writes bytes of its input until 0xF7 has been read and written, and then sets
  \<^verbatim>\<open>global_status\<close> to 0x00.

  0xF0 passes \<^verbatim>\<open>IS_SYSRT\<close>, which \<^verbatim>\<open>run\<close> tests first, so the \<^verbatim>\<open>IS_SOX\<close> branch is never
  taken (\<open>past_IS_SYSRT\<close>). The input F0 7E F7 on an output whose writes complete: F0 is
  written with \<^verbatim>\<open>lock\<close> free and the worker ends in \<^verbatim>\<open>putbyte\<close>, with 7E F7 unread. When
  the writes return 0 the three bytes are handed on one by one, each with \<^verbatim>\<open>lock\<close>
  free.
\<close>

theorem sysex_start_taken_as_realtime:
  "IS_SYSRT 0xF0 \<and>
   sink (global (snd (run 0 (worker [0xF0, 0x7E, 0xF7] all_written)))) = [0xF0] \<and>
   calls_of (run 0 (worker [0xF0, 0x7E, 0xF7] all_written)) = [(0xF0, False, True)] \<and>
   fst (run 0 (worker [0xF0, 0x7E, 0xF7] all_written)) = In_putbyte \<and>
   fd (snd (run 0 (worker [0xF0, 0x7E, 0xF7] all_written))) = [0x7E, 0xF7] \<and>
   calls_of (run 0 (worker [0xF0, 0x7E, 0xF7] none_written)) =
     [(0xF0, False, True), (0x7E, False, True), (0xF7, False, True)]"
  by code_simp

text \<open>
  C10. After a SysEx the worker's own status is what it was before, so a data byte
  read at the top of the loop after the SysEx is framed as a running-status
  continuation of that status.

  No pass of the loop changes the worker's \<^verbatim>\<open>status\<close> (\<open>run_body_locals\<close>). But the data
  byte 3C after F0 7E F7 is written like the three bytes before it, with \<^verbatim>\<open>lock_rt\<close>
  held and \<^verbatim>\<open>lock\<close> free: it passes \<^verbatim>\<open>IS_SYSRT\<close> and never reaches the running-status
  branch. A data byte below 0x08 does: 05 is written by \<^verbatim>\<open>putmsg\<close>, with \<^verbatim>\<open>lock\<close> held.
\<close>

theorem data_byte_after_sysex:
  "calls_of (run 0 (worker [0xF0, 0x7E, 0xF7, 0x3C] none_written)) =
     [(0xF0, False, True), (0x7E, False, True), (0xF7, False, True), (0x3C, False, True)] \<and>
   calls_of (run 0 (worker [0xF0, 0x7E, 0xF7, 0x05] none_written)) =
     [(0xF0, False, True), (0x7E, False, True), (0xF7, False, True), (0x05, True, False)]"
  by code_simp

subsection \<open>The data bytes of a message\<close>

text \<open>
  C3. For a channel or system common message the emit procedure reads and emits
  exactly \<open>n\<close> data bytes after the status byte, \<open>n\<close> the table's value; real-time
  bytes passed through do not count.

  \<^verbatim>\<open>putmsg\<close> for Note On (\<^verbatim>\<open>count\<close> 2) on an output whose writes return 0. The loop runs
  \<^verbatim>\<open>while( i <= count )\<close> from 0 and counts the bytes that fail \<^verbatim>\<open>IS_SYSRT\<close>, those below
  0x08: of the input 01 02 03 04 it takes three bytes; of 3C 7F 40 7F it takes all
  four, counts none and ends the thread at the end of the input. And \<^verbatim>\<open>run\<close> does not
  call \<^verbatim>\<open>putmsg\<close> for 90 3C 7F at all: on an output whose writes complete it writes 90
  and ends.
\<close>

theorem putmsg_reads_past_count:
  "returned (putmsg (worker [0x01, 0x02, 0x03, 0x04] none_written) 0x90 0x90 2) \<and>
   handed (global (stream_of
     (putmsg (worker [0x01, 0x02, 0x03, 0x04] none_written) 0x90 0x90 2))) =
     [0x90, 0x01, 0x02, 0x03] \<and>
   fd (stream_of (putmsg (worker [0x01, 0x02, 0x03, 0x04] none_written) 0x90 0x90 2)) = [0x04] \<and>
   \<not> returned (putmsg (worker [0x3C, 0x7F, 0x40, 0x7F] none_written) 0x90 0x90 2) \<and>
   handed (global (stream_of
     (putmsg (worker [0x3C, 0x7F, 0x40, 0x7F] none_written) 0x90 0x90 2))) =
     [0x90, 0x3C, 0x7F, 0x40, 0x7F] \<and>
   io (stream_of (putmsg (worker [0x3C, 0x7F, 0x40, 0x7F] none_written) 0x90 0x90 2)) =
     \<lparr>retval = 0, error = 0\<rparr> \<and>
   sink (global (snd (run 0 (worker [0x90, 0x3C, 0x7F] all_written)))) = [0x90] \<and>
   fst (run 0 (worker [0x90, 0x3C, 0x7F] all_written)) = In_putbyte"
  by code_simp

text \<open>
  C4. A real-time byte read while the data bytes of a message are collected is written
  at once, is not counted and causes no error; the input B0 07 F8 64 produces the
  output B0 07 F8 64.

  The loop of \<^verbatim>\<open>putmsg\<close> tests \<^verbatim>\<open>IS_CHANNEL(byte)\<close> before it writes, and every
  real-time byte has the top bit set (\<open>putmsg_loop_top_bit\<close>): \<^verbatim>\<open>putmsg\<close> for B0 on the
  input 07 F8 64 (writes that return 0) hands on B0 07 and ends the thread with -1 and
  \<^verbatim>\<open>EINVAL\<close>, F8 unwritten and 64 unread. The test \<^verbatim>\<open>!IS_SYSRT(byte)\<close> further down is
  what should have let F8 through. The worker on B0 07 F8 64 with writes that complete
  writes B0 and ends.
\<close>

theorem realtime_inside_message:
  "\<not> returned (putmsg (worker [0x07, 0xF8, 0x64] none_written) 0xB0 0xB0 2) \<and>
   handed (global (stream_of
     (putmsg (worker [0x07, 0xF8, 0x64] none_written) 0xB0 0xB0 2))) = [0xB0, 0x07] \<and>
   io (stream_of (putmsg (worker [0x07, 0xF8, 0x64] none_written) 0xB0 0xB0 2)) =
     \<lparr>retval = -1, error = 22\<rparr> \<and>
   fd (stream_of (putmsg (worker [0x07, 0xF8, 0x64] none_written) 0xB0 0xB0 2)) = [0x64] \<and>
   sink (global (snd (run 0 (worker [0xB0, 0x07, 0xF8, 0x64] all_written)))) = [0xB0] \<and>
   fst (run 0 (worker [0xB0, 0x07, 0xF8, 0x64] all_written)) = In_putbyte"
  by code_simp

subsection \<open>The exit status\<close>

text \<open>The arguments loop ends the process with status 1 or in the store outside the
  array, and with no other status.\<close>

lemma main_loop_Inl:
  "main_loop env argv i st = Inl p \<Longrightarrow> p = Exits 1 \<or> p = Undefined"
proof (induction env argv i st rule: main_loop.induct)
  case (1 env argv i st)
  from "1.prems" show ?case
    apply (subst (asm) main_loop.simps)
    using "1.IH"
    apply (auto simp: Let_def split: if_splits option.splits)
    done
qed

text \<open>
  \<^verbatim>\<open>main\<close> opens \<^verbatim>\<open>argv[argc]\<close> as the output. Where \<^verbatim>\<open>open\<close> fails on the null path,
  \<^verbatim>\<open>main\<close> therefore never starts a worker.
\<close>

lemma main_null_output:
  assumes "open_wr env None = None"
  shows "main env workers argv = Some (Exits 1) \<or> main env workers argv = Some Undefined"
proof (cases "main_loop env argv 1 \<lparr>main_global = global_init, mss_slots = [], out = 0\<rparr>")
  case (Inl p)
  with main_loop_Inl [OF Inl] show ?thesis by (auto simp: main_def)
next
  case (Inr st)
  from main_loop_no_output [OF assms Inr] have "out st = 0" by simp
  with Inr show ?thesis by (simp add: main_def)
qed

text \<open>
  C9. After all workers have been reaped, the exit status is 0 if and only if every
  worker's terminal status is ok or a clean end of input (and all opens succeeded),
  and non-zero otherwise.

  The loop over the arguments runs \<^verbatim>\<open>for(i = 1; i <= argc; ++i)\<close> and takes the pass with
  \<^verbatim>\<open>i == argc\<close> for the output, so the path it opens for writing is \<^verbatim>\<open>argv[argc]\<close>, the
  null pointer, and every named argument is opened as an input. The command
  \<^verbatim>\<open>merge in.mid out.mid\<close> with both files there and \<^verbatim>\<open>in.mid\<close> empty: both names open,
  a worker on the empty input would end at a clean end of input with \<^verbatim>\<open>io\<close> 0 and 0, and
  \<^verbatim>\<open>main\<close> ends with exit status 1 in the third pass of the loop, before any thread is
  started.
\<close>

theorem clean_run_exits_one:
  "open_rd (files [(''in.mid'', []), (''out.mid'', [])]) (Some ''in.mid'') =
     Some ([], EndOfFile) \<and>
   open_wr (files [(''in.mid'', []), (''out.mid'', [])]) (Some ''out.mid'') =
     Some all_written \<and>
   fst (run 0 (worker [] all_written)) = In_getbyte \<and>
   io (snd (run 0 (worker [] all_written))) = \<lparr>retval = 0, error = 0\<rparr> \<and>
   argv_at [''merge'', ''in.mid'', ''out.mid''] 3 = None \<and>
   main_loop (files [(''in.mid'', []), (''out.mid'', [])])
     [''merge'', ''in.mid'', ''out.mid''] 1
     \<lparr>main_global = global_init, mss_slots = [], out = 0\<rparr> = Inl (Exits 1) \<and>
   main (files [(''in.mid'', []), (''out.mid'', [])])
     (\<lambda>ms k i. snd (run 0 (ms ! i))) [''merge'', ''in.mid'', ''out.mid''] = Some (Exits 1)"
proof -
  let ?env = "files [(''in.mid'', []), (''out.mid'', [])]"
  let ?argv = "[''merge'', ''in.mid'', ''out.mid'']"
  have o: "open_rd ?env (Some ''in.mid'') = Some ([], EndOfFile)"
    "open_wr ?env (Some ''out.mid'') = Some all_written"
    by (simp_all add: files_def)
  have w: "fst (run 0 (worker [] all_written)) = In_getbyte"
    "io (snd (run 0 (worker [] all_written))) = \<lparr>retval = 0, error = 0\<rparr>"
    by code_simp+
  have n: "argv_at ?argv 3 = None"
    by (simp add: argv_at_def)
  have l: "main_loop ?env ?argv 1 \<lparr>main_global = global_init, mss_slots = [], out = 0\<rparr> =
      Inl (Exits 1)"
    by (simp add: main_loop.simps files_def argv_at_def MAX_STREAMS_def)
  then have m: "main ?env (\<lambda>ms k i. snd (run 0 (ms ! i))) ?argv = Some (Exits 1)"
    by (simp add: main_def)
  from o w n l m show ?thesis by simp
qed

text \<open>
  The code behind the loop is reached only where the null path opens. It polls the
  \<^verbatim>\<open>done\<close> flags and reads nothing else of a worker: once every worker has set \<^verbatim>\<open>done\<close>
  the polling ends and the function body with it, which is exit status 0.
\<close>

lemma supervise_after_polling:
  "(supervise view n = Some p \<longrightarrow> p = Exits 0) \<and>
   ((\<forall>k i. done_flag (view' k i) = done_flag (view k i)) \<longrightarrow>
      supervise view' n = supervise view n) \<and>
   ((\<exists>K. \<forall>i<n. done_flag (view K i)) \<longrightarrow> supervise view n = Some (Exits 0)) \<and>
   (main env workers argv = Some (Exits r) \<and> r \<noteq> 0 \<longrightarrow>
      r = 1 \<and>
      (\<forall>st. main_loop env argv 1 \<lparr>main_global = global_init, mss_slots = [], out = 0\<rparr> = Inr st
            \<longrightarrow> out st = 0))"
proof -
  have a: "p = Exits 0" if "supervise view n = Some p" for view n p
    using that by (auto simp: supervise_def split: option.splits)
  have b: "supervise view' n = supervise view n"
    if "\<forall>k i. done_flag (view' k i) = done_flag (view k i)"
    using poll_same [of view' view n 0 "replicate n False"] that
    by (simp add: supervise_def)
  have c: "supervise view n = Some (Exits 0)" if "\<exists>K. \<forall>i<n. done_flag (view K i)"
  proof -
    from that obtain K where "\<forall>i<n. done_flag (view K i)" ..
    with poll_returns [of n view K 0 "replicate n False"]
    obtain y where "poll view n 0 (replicate n False) = Some y" by auto
    then show ?thesis by (simp add: supervise_def)
  qed
  have d: "r = 1 \<and>
      (\<forall>st. main_loop env argv 1 \<lparr>main_global = global_init, mss_slots = [], out = 0\<rparr> = Inr st
            \<longrightarrow> out st = 0)"
    if m: "main env workers argv = Some (Exits r) \<and> r \<noteq> 0"
  proof (cases "main_loop env argv 1 \<lparr>main_global = global_init, mss_slots = [], out = 0\<rparr>")
    case (Inl q)
    with m main_loop_Inl [OF Inl] show ?thesis by (auto simp: main_def)
  next
    case (Inr st)
    show ?thesis
    proof (cases "out st = 0")
      case True
      with m Inr show ?thesis by (simp add: main_def)
    next
      case False
      with m Inr have "supervise (workers (launched st)) (out st) = Some (Exits r)"
        by (simp add: main_def)
      with a [of "workers (launched st)" "out st" "Exits r"] m show ?thesis by simp
    qed
  qed
  from a b c d show ?thesis by blast
qed

end
